theory Spec2Isabelle
  imports Main "HOL-Library.Char_ord" "HOL-Library.List_Lexorder" "HOL-Library.Multiset"
begin

section \<open>The infinite-undo service of the cognitive exocortex\<close>

text \<open>
  This theory embeds \<^verbatim>\<open>src/server/services/infinite_undo.py\<close>: the class
  \<^verbatim>\<open>InfiniteUndoService\<close> with \<^verbatim>\<open>record_version\<close>, \<^verbatim>\<open>restore_version\<close>,
  \<^verbatim>\<open>time_travel\<close> and \<^verbatim>\<open>cleanup_old_versions\<close>.

  The service works on two stores: the PostgreSQL table \<^verbatim>\<open>file_versions\<close> and the
  file system. Both are fields of an explicit state that every operation takes and
  returns.
  \<^item> The table is the list of its rows, in the order of insertion.
  \<^item> The file system is a map from a path to the bytes of the regular file there.
    Directories are not represented, so \<^verbatim>\<open>os.makedirs\<close> changes nothing, and it fails
    only where its argument alone decides that it fails (the empty name).
  \<^item> Time stamps are integers (microseconds); the range limits of \<^verbatim>\<open>datetime\<close> are
    not represented.
  \<^item> \<^verbatim>\<open>hashlib.sha256\<close> and the home directory are parameters of the service.
  \<^item> Failures of the environment (a lost database connection, a full disk) are not
    represented; every exception that the arguments and the two stores decide is a
    branch of the model.
\<close>

subsection \<open>Data\<close>

type_synonym path = string
type_synonym bytes = string
type_synonym datetime = int
type_synonym uuid = nat
type_synonym json = "(string \<times> int) list"

text \<open>
  A row of \<^verbatim>\<open>file_versions\<close>, with the columns that the INSERT of \<^verbatim>\<open>record_version\<close>
  and the SELECTs name. The column \<^verbatim>\<open>id\<close> is \<open>version_id\<close> here.
\<close>

record file_version =
  version_id :: uuid
  file_path :: path
  version_number :: int
  operation :: string
  content_hash :: "string option"
  storage_location :: "path option"
  file_size :: int
  timestamp :: datetime
  metadata :: "json option"

record state =
  file_versions :: "file_version list"
  files :: "path \<rightharpoonup> bytes"
  now :: datetime
  next_id :: uuid

text \<open>
  The service object: \<^verbatim>\<open>self.storage_path\<close> is
  \<^verbatim>\<open>os.path.expanduser("~/cognitive-exocortex/data/versions")\<close>, that is the home
  directory (without a trailing slash) followed by the rest.
\<close>

record service =
  home :: path
  sha256_hexdigest :: "bytes \<Rightarrow> string"

definition storage_path :: "service \<Rightarrow> path" where
  "storage_path svc = home svc @ ''/cognitive-exocortex/data/versions''"

text \<open>The messages of \<^verbatim>\<open>UndoResponse\<close>, one constructor for each text of the source.\<close>

datatype os_error = FileNotFoundError | SameFileError

datatype message =
    NoVersionFound          \<comment> \<open>"No version found to restore"\<close>
  | RestoredTo int          \<comment> \<open>"Restored to version N"\<close>
  | ContentNotFound         \<comment> \<open>"Version content not found in storage"\<close>
  | ErrorRestoring os_error \<comment> \<open>"Error restoring: ..."\<close>

record undo_response =
  success :: bool
  response_file_path :: path
  restored_version :: int
  message :: message

record time_travel_file =
  tt_file_path :: path
  tt_version :: int
  tt_size :: int
  tt_timestamp :: datetime

record time_travel_result =
  directory :: string
  as_of :: datetime
  tt_files :: "time_travel_file list"
  file_count :: nat

subsection \<open>Paths and files\<close>

text \<open>\<^verbatim>\<open>posixpath.join\<close> of two components.\<close>

definition join :: "path \<Rightarrow> path \<Rightarrow> path" where
  "join a b =
     (if b \<noteq> [] \<and> hd b = CHR ''/'' then b
      else if a = [] \<or> last a = CHR ''/'' then a @ b
      else a @ ''/'' @ b)"

text \<open>
  \<^verbatim>\<open>posixpath.dirname\<close>: the part up to the last slash, without its trailing slashes
  unless it consists of slashes only.
\<close>

definition dirname :: "path \<Rightarrow> path" where
  "dirname p =
     (let head = rev (dropWhile (\<lambda>c. c \<noteq> CHR ''/'') (rev p))
      in if head \<noteq> [] \<and> head \<noteq> replicate (length head) (CHR ''/'')
         then rev (dropWhile (\<lambda>c. c = CHR ''/'') (rev head))
         else head)"

text \<open>\<^verbatim>\<open>os.makedirs(name, exist_ok=True)\<close> raises on the empty name.\<close>

definition makedirs :: "path \<Rightarrow> os_error option" where
  "makedirs name = (if name = [] then Some FileNotFoundError else None)"

text \<open>
  \<^verbatim>\<open>shutil.copy2(src, dst)\<close>: a missing source and a destination that is the source
  are errors.
\<close>

definition copy2 :: "path \<Rightarrow> path \<Rightarrow> (path \<rightharpoonup> bytes) \<Rightarrow> os_error + (path \<rightharpoonup> bytes)" where
  "copy2 src dst fs =
     (case fs src of
        None \<Rightarrow> Inl FileNotFoundError
      | Some b \<Rightarrow> if src = dst then Inl SameFileError else Inr (fs(dst \<mapsto> b)))"

text \<open>Python's truth value of an optional string: \<^verbatim>\<open>None\<close> and \<^verbatim>\<open>""\<close> are false.\<close>

definition truthy :: "string option \<Rightarrow> bool" where
  "truthy x = (case x of None \<Rightarrow> False | Some v \<Rightarrow> v \<noteq> [])"

definition compute_hash :: "service \<Rightarrow> state \<Rightarrow> path \<Rightarrow> string option" where
  "compute_hash svc s fp = map_option (sha256_hexdigest svc) (files s fp)"

text \<open>
  \<^verbatim>\<open>_get_storage_path\<close>. Its \<^verbatim>\<open>os.makedirs(full_dir)\<close> cannot raise: \<open>full_dir\<close> is
  never empty, since \<open>storage_path\<close> is not.
\<close>

definition get_storage_path :: "service \<Rightarrow> string \<Rightarrow> path" where
  "get_storage_path svc h =
     (let subdir = take 2 h;
          full_dir = join (storage_path svc) subdir
      in join full_dir h)"

subsection \<open>Queries\<close>

text \<open>SQL's \<^verbatim>\<open>MAX\<close> (\<^verbatim>\<open>NULL\<close> on no rows) and \<^verbatim>\<open>COALESCE\<close>.\<close>

fun sql_max :: "int list \<Rightarrow> int option" where
  "sql_max [] = None"
| "sql_max (x # xs) = (case sql_max xs of None \<Rightarrow> Some x | Some m \<Rightarrow> Some (max x m))"

definition coalesce :: "'a option \<Rightarrow> 'a \<Rightarrow> 'a" where
  "coalesce x d = (case x of None \<Rightarrow> d | Some v \<Rightarrow> v)"

text \<open>
  \<^verbatim>\<open>ORDER BY key DESC OFFSET n LIMIT 1\<close>. PostgreSQL fixes the order of rows with
  equal keys in no way, so the query has a list of possible answers: the rows that
  stand at position \<open>n\<close> in some ordering of \<open>rows\<close> by descending key. A row can stand
  there when at most \<open>n\<close> rows have a greater key and more than \<open>n\<close> rows have a key
  that is greater or equal. The empty list says that the query returns no row.
\<close>

definition ranked_at :: "(file_version \<Rightarrow> int) \<Rightarrow> nat \<Rightarrow> file_version list \<Rightarrow> file_version list" where
  "ranked_at key n rows =
     filter (\<lambda>r. length (filter (\<lambda>r'. key r < key r') rows) \<le> n
               \<and> n < length (filter (\<lambda>r'. key r \<le> key r') rows)) rows"

definition rows_of :: "path \<Rightarrow> state \<Rightarrow> file_version list" where
  "rows_of fp s = filter (\<lambda>r. file_path r = fp) (file_versions s)"

text \<open>
  PostgreSQL's \<^verbatim>\<open>LIKE\<close>: \<^verbatim>\<open>%\<close> stands for any text, \<^verbatim>\<open>_\<close> for one character, and a
  backslash takes the next character of the pattern literally. A pattern that ends
  in a lone backslash is an error in PostgreSQL; \<^verbatim>\<open>time_travel\<close> never builds one,
  since its pattern ends in \<^verbatim>\<open>%\<close>.
\<close>

fun like_match :: "string \<Rightarrow> string \<Rightarrow> bool" where
  "like_match [] s = (s = [])"
| "like_match (c # p) s =
     (if c = CHR ''%'' then
        like_match p s \<or> (case s of [] \<Rightarrow> False | x # s' \<Rightarrow> like_match (c # p) s')
      else if c = CHR ''_'' then
        (case s of [] \<Rightarrow> False | x # s' \<Rightarrow> like_match p s')
      else if c = CHR 0x5C then
        (case p of [] \<Rightarrow> False
         | e # p' \<Rightarrow> (case s of [] \<Rightarrow> False | x # s' \<Rightarrow> x = e \<and> like_match p' s'))
      else (case s of [] \<Rightarrow> False | x # s' \<Rightarrow> x = c \<and> like_match p s'))"

subsection \<open>\<^verbatim>\<open>record_version\<close>\<close>

text \<open>
  Modelled from the spec: the schema of \<^verbatim>\<open>file_versions\<close> is not part of the sources.
  The INSERT of \<^verbatim>\<open>record_version\<close> names neither \<^verbatim>\<open>id\<close> nor \<^verbatim>\<open>timestamp\<close>, so the
  table's defaults fill them: a fresh id, and the time stamp "now" (spec, 4.3 step 3).
\<close>

definition insert_file_version ::
  "path \<Rightarrow> int \<Rightarrow> string \<Rightarrow> string option \<Rightarrow> path option \<Rightarrow> int \<Rightarrow> json option \<Rightarrow> state
     \<Rightarrow> uuid \<times> state" where
  "insert_file_version fp vn opn h loc sz md s =
     (next_id s,
      s\<lparr>file_versions := file_versions s @
           [\<lparr>version_id = next_id s, file_path = fp, version_number = vn, operation = opn,
             content_hash = h, storage_location = loc, file_size = sz,
             timestamp = now s, metadata = md\<rparr>],
        next_id := Suc (next_id s)\<rparr>)"

text \<open>
  The deduplication query compares \<^verbatim>\<open>content_hash = $2\<close>, which no row satisfies when
  the parameter is \<^verbatim>\<open>NULL\<close>. Among several rows with the greatest version number (which
  \<^verbatim>\<open>record_version\<close> itself never produces) the model returns the first of the table.
\<close>

definition existing_version :: "path \<Rightarrow> string option \<Rightarrow> state \<Rightarrow> uuid option" where
  "existing_version fp h s =
     (case h of
        None \<Rightarrow> None
      | Some d \<Rightarrow>
          (case ranked_at version_number 0
                  (filter (\<lambda>r. file_path r = fp \<and> content_hash r = Some d) (file_versions s)) of
             [] \<Rightarrow> None
           | r # _ \<Rightarrow> Some (version_id r)))"

definition record_version ::
  "service \<Rightarrow> path \<Rightarrow> string \<Rightarrow> json option \<Rightarrow> state \<Rightarrow> uuid option \<times> state" where
  "record_version svc fp opn md s =
     (let digest = compute_hash svc s fp;
          fsize = (case files s fp of Some b \<Rightarrow> int (length b) | None \<Rightarrow> 0);
          existing = existing_version fp digest s
      in if existing \<noteq> None \<and> opn \<notin> {''delete'', ''rename''} then (existing, s)
         else
           let current_version = coalesce (sql_max (map version_number (rows_of fp s))) 0;
               next_version = current_version + 1;
               stored =
                 (if truthy digest \<and> files s fp \<noteq> None then
                    let loc = get_storage_path svc (the digest)
                    in if files s loc = None
                       then map_sum (\<lambda>e. e) (\<lambda>fs. (Some loc, fs)) (copy2 fp loc (files s))
                       else Inr (Some loc, files s)
                  else Inr (None, files s));
               metadata_json = (if md = None \<or> md = Some [] then None else md)
           in case stored of
                Inl e \<Rightarrow> (None, s)
              | Inr (loc, fs) \<Rightarrow>
                  map_prod Some (\<lambda>s'. s')
                    (insert_file_version fp next_version opn digest loc fsize metadata_json
                       (s\<lparr>files := fs\<rparr>)))"

text \<open>
  The two things that \<^verbatim>\<open>record_version\<close> writes when it does not return the existing
  version: the file system after the blob is stored, and the row of the INSERT.
\<close>

definition new_files :: "service \<Rightarrow> path \<Rightarrow> state \<Rightarrow> (path \<rightharpoonup> bytes)" where
  "new_files svc fp s =
     (if truthy (compute_hash svc s fp) \<and> files s fp \<noteq> None
         \<and> files s (get_storage_path svc (the (compute_hash svc s fp))) = None
      then (files s)(get_storage_path svc (the (compute_hash svc s fp)) := files s fp)
      else files s)"

definition new_row :: "service \<Rightarrow> path \<Rightarrow> string \<Rightarrow> json option \<Rightarrow> state \<Rightarrow> file_version" where
  "new_row svc fp opn md s =
     \<lparr>version_id = next_id s, file_path = fp,
      version_number = coalesce (sql_max (map version_number (rows_of fp s))) 0 + 1,
      operation = opn, content_hash = compute_hash svc s fp,
      storage_location =
        (if truthy (compute_hash svc s fp) \<and> files s fp \<noteq> None
         then Some (get_storage_path svc (the (compute_hash svc s fp))) else None),
      file_size = (case files s fp of Some b \<Rightarrow> int (length b) | None \<Rightarrow> 0),
      timestamp = now s,
      metadata = (if md = None \<or> md = Some [] then None else md)\<rparr>"

subsection \<open>\<^verbatim>\<open>restore_version\<close>\<close>

text \<open>
  The three queries that find the target row: \<^verbatim>\<open>if target_version\<close> is false for
  \<^verbatim>\<open>None\<close> and for \<open>0\<close>; a \<^verbatim>\<open>datetime\<close> is always true. The result lists the rows that
  \<^verbatim>\<open>fetchrow\<close> may return; it is empty when \<^verbatim>\<open>fetchrow\<close> returns \<^verbatim>\<open>None\<close>.
\<close>

definition select_target ::
  "state \<Rightarrow> path \<Rightarrow> int option \<Rightarrow> datetime option \<Rightarrow> file_version list" where
  "select_target s fp target_version target_timestamp =
     (if target_version \<noteq> None \<and> target_version \<noteq> Some 0 then
        filter (\<lambda>r. file_path r = fp \<and> Some (version_number r) = target_version)
          (file_versions s)
      else if target_timestamp \<noteq> None then
        ranked_at timestamp 0
          (filter (\<lambda>r. file_path r = fp \<and> timestamp r \<le> the target_timestamp)
             (file_versions s))
      else ranked_at version_number 1 (rows_of fp s))"

text \<open>The rest of \<^verbatim>\<open>restore_version\<close>, from \<^verbatim>\<open>if not row\<close> on, for the row found.\<close>

definition restore_row ::
  "service \<Rightarrow> path \<Rightarrow> file_version option \<Rightarrow> state \<Rightarrow> undo_response \<times> state" where
  "restore_row svc fp row s =
     (case row of
        None \<Rightarrow>
          (\<lparr>success = False, response_file_path = fp, restored_version = 0,
            message = NoVersionFound\<rparr>, s)
      | Some r \<Rightarrow>
          if truthy (storage_location r) \<and> files s (the (storage_location r)) \<noteq> None then
            let loc = the (storage_location r);
                s1 = snd (record_version svc fp ''pre_restore'' None s)
            in case makedirs (dirname fp) of
                 Some e \<Rightarrow>
                   (\<lparr>success = False, response_file_path = fp, restored_version = 0,
                     message = ErrorRestoring e\<rparr>, s1)
               | None \<Rightarrow>
                   (case copy2 loc fp (files s1) of
                      Inl e \<Rightarrow>
                        (\<lparr>success = False, response_file_path = fp, restored_version = 0,
                          message = ErrorRestoring e\<rparr>, s1)
                    | Inr fs \<Rightarrow>
                        let s2 = s1\<lparr>files := fs\<rparr>;
                            s3 = snd (record_version svc fp ''restore''
                                   (Some [(''restored_from_version'', version_number r)]) s2)
                        in (\<lparr>success = True, response_file_path = fp,
                             restored_version = version_number r,
                             message = RestoredTo (version_number r)\<rparr>, s3))
          else
            (\<lparr>success = False, response_file_path = fp,
              restored_version = version_number r, message = ContentNotFound\<rparr>, s))"

text \<open>The outcomes of \<^verbatim>\<open>restore_version\<close>: one for each row the query may return.\<close>

definition restore_version ::
  "service \<Rightarrow> path \<Rightarrow> int option \<Rightarrow> datetime option \<Rightarrow> state \<Rightarrow> (undo_response \<times> state) list" where
  "restore_version svc fp target_version target_timestamp s =
     (case select_target s fp target_version target_timestamp of
        [] \<Rightarrow> [restore_row svc fp None s]
      | rows \<Rightarrow> map (\<lambda>r. restore_row svc fp (Some r) s) rows)"

subsection \<open>\<^verbatim>\<open>time_travel\<close>\<close>

text \<open>
  The query that \<^verbatim>\<open>time_travel\<close> runs (the second one; the first is assigned to a
  variable and never used): \<^verbatim>\<open>DISTINCT ON (file_path)\<close> keeps, for each path, the first
  row in the order \<^verbatim>\<open>file_path, version_number DESC\<close>. Paths are ordered as byte
  strings. Among several rows with the greatest version number the model keeps the
  first of the table.
\<close>

definition time_travel_rows :: "state \<Rightarrow> string \<Rightarrow> datetime \<Rightarrow> file_version list" where
  "time_travel_rows s dir target_time =
     (let qualifying =
            filter (\<lambda>r. like_match (dir @ ''%'') (file_path r) \<and> timestamp r \<le> target_time)
              (file_versions s)
      in concat (map (\<lambda>fp. take 1 (ranked_at version_number 0
                                     (filter (\<lambda>r. file_path r = fp) qualifying)))
                   (sort (remdups (map file_path qualifying)))))"

definition time_travel :: "state \<Rightarrow> string \<Rightarrow> datetime \<Rightarrow> time_travel_result" where
  "time_travel s dir target_time =
     (let rows = time_travel_rows s dir target_time;
          fls = map (\<lambda>row. \<lparr>tt_file_path = file_path row, tt_version = version_number row,
                            tt_size = file_size row, tt_timestamp = timestamp row\<rparr>) rows
      in \<lparr>directory = dir, as_of = target_time, tt_files = fls, file_count = length fls\<rparr>)"

subsection \<open>\<^verbatim>\<open>cleanup_old_versions\<close>\<close>

text \<open>
  \<^verbatim>\<open>timedelta(days=n)\<close> in microseconds. The first component of the result is the
  cutoff date. The source also returns the \<^verbatim>\<open>fetchval\<close> of \<^verbatim>\<open>RETURNING id\<close> under the
  key \<^verbatim>\<open>deleted_versions\<close>: the id of one deleted row, or \<open>0\<close> when there is none; the
  second component lists the ids it may be.
\<close>

definition to_delete :: "datetime \<Rightarrow> int \<Rightarrow> file_version list \<Rightarrow> file_version list" where
  "to_delete cutoff_date max_versions_per_file rows =
     filter (\<lambda>r. timestamp r < cutoff_date
               \<and> (case sql_max (map version_number
                                  (filter (\<lambda>v2. file_path v2 = file_path r) rows)) of
                    None \<Rightarrow> False
                  | Some m \<Rightarrow> version_number r < m - max_versions_per_file)) rows"

definition cleanup_old_versions :: "int \<Rightarrow> int \<Rightarrow> state \<Rightarrow> (datetime \<times> uuid list) \<times> state" where
  "cleanup_old_versions days_to_keep max_versions_per_file s =
     (let cutoff_date = now s - days_to_keep * 86400000000;
          doomed = map version_id (to_delete cutoff_date max_versions_per_file (file_versions s))
      in ((cutoff_date, doomed),
          s\<lparr>file_versions := filter (\<lambda>r. version_id r \<notin> set doomed) (file_versions s)\<rparr>))"

subsection \<open>Histories\<close>

text \<open>
  What happens to the two stores between the calls of the service: a recording, a
  file written or removed by its owner, and time passing (the clock never runs
  backwards).
\<close>

datatype event =
    Record path string "json option"
  | Write path bytes
  | Unlink path
  | Tick nat

fun step :: "service \<Rightarrow> state \<Rightarrow> event \<Rightarrow> state" where
  "step svc s (Record fp opn md) = snd (record_version svc fp opn md s)"
| "step svc s (Write fp b) = s\<lparr>files := (files s)(fp \<mapsto> b)\<rparr>"
| "step svc s (Unlink fp) = s\<lparr>files := (files s)(fp := None)\<rparr>"
| "step svc s (Tick d) = s\<lparr>now := now s + int d\<rparr>"

definition run :: "service \<Rightarrow> event list \<Rightarrow> state \<Rightarrow> state" where
  "run svc evs s = foldl (step svc) s evs"

text \<open>
  The invariant of the table under histories: the version numbers of each path count
  up from 1 in the order of insertion, and time stamps never decrease along the table.
\<close>

definition gapless :: "state \<Rightarrow> bool" where
  "gapless s \<longleftrightarrow>
     (\<forall>fp. map version_number (rows_of fp s) = map int [1 ..< Suc (length (rows_of fp s))])
     \<and> sorted (map timestamp (file_versions s))
     \<and> (\<forall>r \<in> set (file_versions s). timestamp r \<le> now s)"

subsection \<open>Concrete stores\<close>

text \<open>
  A service whose digest function agrees with SHA-256 on the contents \<open>X\<close> and \<open>Y\<close>
  (and gives the digest of the empty content otherwise), and the stores that the
  scenario of the specification builds: \<open>X\<close> is recorded as version 1 of
  \<^verbatim>\<open>/d/a.txt\<close> at time 10 and \<open>Y\<close> as version 2 at time 20.
\<close>

definition sha_table :: "bytes \<Rightarrow> string" where
  "sha_table b =
     (if b = ''X'' then ''4b68ab3847feda7d6c62c1fbcbeebfa35eab7351ed5e78f4ddadea5df64b8015''
      else if b = ''Y'' then ''18f5384d58bcb1bba0bcd9e6a6781d1a6ac2cc280c330ecbab6cb7931b721552''
      else ''e3b0c44298fc1c149afbf4c8996fb92427ae41e4649b934ca495991b7852b855'')"

definition demo_service :: service where
  "demo_service = \<lparr>home = ''/home/u'', sha256_hexdigest = sha_table\<rparr>"

definition empty_state :: state where
  "empty_state = \<lparr>file_versions = [], files = Map.empty, now = 0, next_id = 0\<rparr>"

definition blob_X :: path where
  "blob_X = ''/home/u/cognitive-exocortex/data/versions/4b/4b68ab3847feda7d6c62c1fbcbeebfa35eab7351ed5e78f4ddadea5df64b8015''"

definition blob_Y :: path where
  "blob_Y = ''/home/u/cognitive-exocortex/data/versions/18/18f5384d58bcb1bba0bcd9e6a6781d1a6ac2cc280c330ecbab6cb7931b721552''"

definition version_1 :: file_version where
  "version_1 = \<lparr>version_id = 0, file_path = ''/d/a.txt'', version_number = 1,
     operation = ''create'', content_hash = Some (sha_table ''X''),
     storage_location = Some blob_X, file_size = 1, timestamp = 10, metadata = None\<rparr>"

definition version_2 :: file_version where
  "version_2 = \<lparr>version_id = 1, file_path = ''/d/a.txt'', version_number = 2,
     operation = ''modify'', content_hash = Some (sha_table ''Y''),
     storage_location = Some blob_Y, file_size = 1, timestamp = 20, metadata = None\<rparr>"

definition version_3 :: file_version where
  "version_3 = \<lparr>version_id = 2, file_path = ''/d/a.txt'', version_number = 3,
     operation = ''delete'', content_hash = None,
     storage_location = None, file_size = 0, timestamp = 30, metadata = None\<rparr>"

definition demo_events :: "event list" where
  "demo_events =
     [Write ''/d/a.txt'' ''X'', Tick 10, Record ''/d/a.txt'' ''create'' None,
      Write ''/d/a.txt'' ''Y'', Tick 10, Record ''/d/a.txt'' ''modify'' None, Tick 10]"

definition demo_state :: state where
  "demo_state = run demo_service demo_events empty_state"

text \<open>The file holds \<open>X\<close> again (its content before version 2).\<close>

definition reverted_state :: state where
  "reverted_state = step demo_service demo_state (Write ''/d/a.txt'' ''X'')"

text \<open>The file holds a content that no version has.\<close>

definition edited_state :: state where
  "edited_state = step demo_service demo_state (Write ''/d/a.txt'' ''Z'')"

text \<open>The file is removed and the removal recorded, as version 3 at time 30.\<close>

definition deleted_state :: state where
  "deleted_state =
     run demo_service [Unlink ''/d/a.txt'', Record ''/d/a.txt'' ''delete'' None, Tick 10] demo_state"

text \<open>The blob of version 1 is gone from the store.\<close>

definition pruned_state :: state where
  "pruned_state = step demo_service demo_state (Unlink blob_X)"

text \<open>Both versions are recorded within one tick of the clock, at time 5.\<close>

definition tie_state :: state where
  "tie_state =
     run demo_service
       [Tick 5, Write ''/d/a.txt'' ''X'', Record ''/d/a.txt'' ''create'' None,
        Write ''/d/a.txt'' ''Y'', Record ''/d/a.txt'' ''modify'' None] empty_state"

text \<open>Five versions of one path, recorded at the times 1 to 5; the clock is at 100.\<close>

definition five_versions :: state where
  "five_versions =
     run demo_service
       (concat (replicate 5 [Tick 1, Record ''/d/a.txt'' ''delete'' None]) @ [Tick 95])
       empty_state"

text \<open>Two files with the same bytes, nothing recorded yet.\<close>

definition two_files :: state where
  "two_files = \<lparr>file_versions = [],
     files = [''/d/a.txt'' \<mapsto> ''X'', ''/d/b.txt'' \<mapsto> ''X''], now = 0, next_id = 0\<rparr>"

section \<open>Lemmas\<close>

subsection \<open>The queries\<close>

lemma sql_max_Max: "sql_max xs = (if xs = [] then None else Some (Max (set xs)))"
  by (induction xs) (auto simp: max.commute)

text \<open>
  \<open>ranked_at\<close> holds every row that stands at position \<open>n\<close> of an ordering of the
  rows by descending key, so what is proved of all its rows is proved of the row the
  query returns.
\<close>

lemma ranked_at_sound:
  assumes "mset ys = mset rows" and "sorted_wrt (\<lambda>a b. key b \<le> key a) ys" and "n < length ys"
  shows "ys ! n \<in> set (ranked_at key n rows)"
proof -
  let ?r = "ys ! n"
  have len: "length (filter P rows) = length (filter P ys)" for P
  proof -
    have "mset (filter P rows) = mset (filter P ys)"
      using assms(1) by simp
    then show ?thesis by (metis size_mset)
  qed
  have mem: "?r \<in> set rows"
    using assms(1,3) by (metis nth_mem set_mset_mset)
  have split: "ys = take n ys @ drop n ys" by simp
  have "filter (\<lambda>r'. key ?r < key r') (drop n ys) = []"
  proof -
    have "\<forall>x \<in> set (drop n ys). key x \<le> key ?r"
    proof
      fix x assume "x \<in> set (drop n ys)"
      then obtain i where i: "i < length (drop n ys)" "x = drop n ys ! i"
        by (metis in_set_conv_nth)
      then have x: "x = ys ! (n + i)" and ni: "n + i < length ys" by auto
      show "key x \<le> key ?r"
      proof (cases "i = 0")
        case True then show ?thesis using x by simp
      next
        case False
        then have "n < n + i" by simp
        then show ?thesis using assms(2) ni x by (simp add: sorted_wrt_iff_nth_less)
      qed
    qed
    then show ?thesis by (auto simp: filter_empty_conv)
  qed
  then have "filter (\<lambda>r'. key ?r < key r') ys = filter (\<lambda>r'. key ?r < key r') (take n ys)"
    by (metis append_Nil2 append_take_drop_id filter_append)
  then have le: "length (filter (\<lambda>r'. key ?r < key r') ys) \<le> n"
    by (metis length_filter_le length_take min.cobounded2 order_trans)
  have "filter (\<lambda>r'. key ?r \<le> key r') (take (Suc n) ys) = take (Suc n) ys"
  proof -
    have "\<forall>x \<in> set (take (Suc n) ys). key ?r \<le> key x"
    proof
      fix x assume "x \<in> set (take (Suc n) ys)"
      then obtain i where i: "i < length (take (Suc n) ys)" "x = take (Suc n) ys ! i"
        by (metis in_set_conv_nth)
      then have x: "x = ys ! i" and ni: "i \<le> n" by auto
      show "key ?r \<le> key x"
      proof (cases "i = n")
        case True then show ?thesis using x by simp
      next
        case False
        then have "i < n" using ni by simp
        then show ?thesis using assms(2,3) x by (simp add: sorted_wrt_iff_nth_less)
      qed
    qed
    then show ?thesis by (simp add: filter_id_conv)
  qed
  then have "length (filter (\<lambda>r'. key ?r \<le> key r') (take (Suc n) ys)) = Suc n"
    using assms(3) by simp
  moreover have "length (filter (\<lambda>r'. key ?r \<le> key r') ys)
      = length (filter (\<lambda>r'. key ?r \<le> key r') (take (Suc n) ys))
        + length (filter (\<lambda>r'. key ?r \<le> key r') (drop (Suc n) ys))"
    by (metis append_take_drop_id filter_append length_append)
  ultimately have gt: "n < length (filter (\<lambda>r'. key ?r \<le> key r') ys)" by simp
  show ?thesis
    unfolding ranked_at_def using mem le gt by (simp add: len)
qed

lemma ranked_at_nonempty:
  assumes "n < length rows"
  shows "ranked_at key n rows \<noteq> []"
proof -
  let ?ys = "rev (sort_key key rows)"
  have "mset ?ys = mset rows" by simp
  moreover have "sorted_wrt (\<lambda>a b. key b \<le> key a) ?ys"
    using sorted_sort_key[of key rows] by (simp add: sorted_wrt_rev sorted_map)
  moreover have "n < length ?ys" using assms by simp
  ultimately have "?ys ! n \<in> set (ranked_at key n rows)" by (rule ranked_at_sound)
  then show ?thesis by auto
qed

lemma ranked_at_empty_iff: "ranked_at key n rows = [] \<longleftrightarrow> length rows \<le> n"
proof
  assume "ranked_at key n rows = []"
  then show "length rows \<le> n" using ranked_at_nonempty[of n rows key] by (cases "n < length rows") auto
next
  assume le: "length rows \<le> n"
  have "length (filter P rows) \<le> n" for P
    using le length_filter_le[of P rows] by linarith
  then show "ranked_at key n rows = []"
    unfolding ranked_at_def by (auto simp: filter_empty_conv not_less)
qed

lemma ranked_at_0_iff:
  "r \<in> set (ranked_at key 0 rows) \<longleftrightarrow> r \<in> set rows \<and> (\<forall>r' \<in> set rows. key r' \<le> key r)"
proof -
  have "r \<in> set rows \<Longrightarrow> filter (\<lambda>r'. key r \<le> key r') rows \<noteq> []"
    by (auto simp: filter_empty_conv)
  then show ?thesis
    unfolding ranked_at_def by (auto simp: filter_empty_conv not_less)
qed

lemma ranked_at_0_Nil_iff: "ranked_at key 0 rows = [] \<longleftrightarrow> rows = []"
proof
  assume e: "ranked_at key 0 rows = []"
  show "rows = []"
  proof (rule ccontr)
    assume ne: "rows \<noteq> []"
    define m where "m = Max (key ` set rows)"
    have "m \<in> key ` set rows" unfolding m_def using ne by (intro Max_in) auto
    then obtain r where r: "r \<in> set rows" "key r = m" by auto
    have "\<forall>r' \<in> set rows. key r' \<le> key r"
      using r(2) unfolding m_def by simp
    then have "r \<in> set (ranked_at key 0 rows)" using r(1) by (simp add: ranked_at_0_iff)
    then show False using e by simp
  qed
next
  assume "rows = []" then show "ranked_at key 0 rows = []" by (simp add: ranked_at_def)
qed

lemma select_target_Nil_iff:
  "select_target s fp tv tt = [] \<longleftrightarrow>
     (if tv \<noteq> None \<and> tv \<noteq> Some 0 then \<forall>r \<in> set (rows_of fp s). Some (version_number r) \<noteq> tv
      else if tt \<noteq> None then \<forall>r \<in> set (rows_of fp s). \<not> timestamp r \<le> the tt
      else length (rows_of fp s) \<le> 1)"
  by (auto simp: select_target_def ranked_at_empty_iff rows_of_def filter_empty_conv)

lemma restore_version_outcomes:
  "set (restore_version svc fp tv tt s) =
     (if select_target s fp tv tt = [] then {restore_row svc fp None s}
      else (\<lambda>r. restore_row svc fp (Some r) s) ` set (select_target s fp tv tt))"
  by (cases "select_target s fp tv tt") (simp_all add: restore_version_def)

subsection \<open>\<^verbatim>\<open>record_version\<close>\<close>

lemma existing_version_None_iff:
  "existing_version fp h s = None \<longleftrightarrow>
     (\<forall>d. h = Some d \<longrightarrow> (\<forall>r \<in> set (rows_of fp s). content_hash r \<noteq> Some d))"
proof (cases h)
  case None
  then show ?thesis by (simp add: existing_version_def)
next
  case (Some d)
  let ?m = "filter (\<lambda>r. file_path r = fp \<and> content_hash r = Some d) (file_versions s)"
  have "existing_version fp h s = None \<longleftrightarrow> ranked_at version_number 0 ?m = []"
    using Some by (simp add: existing_version_def split: list.splits)
  also have "\<dots> \<longleftrightarrow> ?m = []" by (rule ranked_at_0_Nil_iff)
  also have "\<dots> \<longleftrightarrow> (\<forall>r \<in> set (rows_of fp s). content_hash r \<noteq> Some d)"
    by (auto simp: rows_of_def filter_empty_conv)
  finally show ?thesis using Some by simp
qed

lemma existing_version_Some:
  assumes "existing_version fp h s = Some i"
  shows "\<exists>d r. h = Some d \<and> r \<in> set (rows_of fp s) \<and> content_hash r = Some d \<and> version_id r = i
           \<and> (\<forall>r' \<in> set (rows_of fp s). content_hash r' = Some d \<longrightarrow> version_number r' \<le> version_number r)"
proof -
  from assms obtain d where d: "h = Some d" by (cases h) (auto simp: existing_version_def)
  let ?m = "filter (\<lambda>r. file_path r = fp \<and> content_hash r = Some d) (file_versions s)"
  from assms d obtain r rs where r: "ranked_at version_number 0 ?m = r # rs" "version_id r = i"
    by (auto simp: existing_version_def split: list.splits)
  then have "r \<in> set (ranked_at version_number 0 ?m)" by simp
  then have "r \<in> set ?m \<and> (\<forall>r' \<in> set ?m. version_number r' \<le> version_number r)"
    using ranked_at_0_iff[of r version_number ?m] by blast
  then show ?thesis using d r(2) by (auto simp: rows_of_def)
qed

lemma copy2_fresh:
  "fs src = Some b \<Longrightarrow> fs dst = None \<Longrightarrow> copy2 src dst fs = Inr (fs(dst \<mapsto> b))"
  by (auto simp: copy2_def)

lemma record_version_dedup:
  assumes "existing_version fp (compute_hash svc s fp) s = Some i"
    and "opn \<notin> {''delete'', ''rename''}"
  shows "record_version svc fp opn md s = (Some i, s)"
proof -
  have c: "existing_version fp (compute_hash svc s fp) s \<noteq> None \<and> opn \<notin> {''delete'', ''rename''}"
    using assms by simp
  show ?thesis
    by (simp only: record_version_def Let_def if_P[OF c]) (simp only: assms(1))
qed

lemma record_version_insert:
  assumes "\<not> (existing_version fp (compute_hash svc s fp) s \<noteq> None \<and> opn \<notin> {''delete'', ''rename''})"
  shows "record_version svc fp opn md s =
     (Some (next_id s),
      s\<lparr>files := new_files svc fp s,
        file_versions := file_versions s @ [new_row svc fp opn md s],
        next_id := Suc (next_id s)\<rparr>)"
proof (cases "files s fp")
  case None
  show ?thesis
    by (simp only: record_version_def Let_def if_not_P[OF assms])
       (simp add: None insert_file_version_def new_files_def new_row_def compute_hash_def truthy_def)
next
  case (Some b)
  show ?thesis
  proof (cases "truthy (compute_hash svc s fp)")
    case False
    show ?thesis
      by (simp only: record_version_def Let_def if_not_P[OF assms])
         (simp add: Some False insert_file_version_def new_files_def new_row_def)
  next
    case True
    show ?thesis
    proof (cases "files s (get_storage_path svc (the (compute_hash svc s fp)))")
      case None
      show ?thesis
        by (simp only: record_version_def Let_def if_not_P[OF assms])
           (simp add: Some True None insert_file_version_def new_files_def new_row_def copy2_fresh)
    next
      case (Some c)
      show ?thesis
        by (simp only: record_version_def Let_def if_not_P[OF assms])
           (simp add: \<open>files s fp = Some b\<close> True Some insert_file_version_def new_files_def new_row_def)
    qed
  qed
qed

lemma record_version_cases:
  "record_version svc fp opn md s = (existing_version fp (compute_hash svc s fp) s, s)
     \<and> existing_version fp (compute_hash svc s fp) s \<noteq> None \<and> opn \<notin> {''delete'', ''rename''}
   \<or> record_version svc fp opn md s =
       (Some (next_id s),
        s\<lparr>files := new_files svc fp s,
          file_versions := file_versions s @ [new_row svc fp opn md s],
          next_id := Suc (next_id s)\<rparr>)
     \<and> \<not> (existing_version fp (compute_hash svc s fp) s \<noteq> None \<and> opn \<notin> {''delete'', ''rename''})"
proof (cases "existing_version fp (compute_hash svc s fp) s \<noteq> None \<and> opn \<notin> {''delete'', ''rename''}")
  case True
  then obtain i where "existing_version fp (compute_hash svc s fp) s = Some i" by auto
  then show ?thesis using True record_version_dedup[of fp svc s i opn md] by simp
next
  case False
  then show ?thesis using record_version_insert[OF False] by blast
qed

lemma record_version_snd:
  "snd (record_version svc fp opn md s) = s
   \<or> snd (record_version svc fp opn md s) =
        s\<lparr>files := new_files svc fp s,
          file_versions := file_versions s @ [new_row svc fp opn md s],
          next_id := Suc (next_id s)\<rparr>"
  using record_version_cases[of svc fp opn md s] by auto

text \<open>
  The state after a recording of a readable file, in full: the call inserts a row
  exactly when the operation is \<^verbatim>\<open>delete\<close> or \<^verbatim>\<open>rename\<close> or no row of the path
  has the digest, and then it copies the bytes to the blob location unless a file
  is there already.
\<close>

lemma record_version_exact:
  assumes "files s fp = Some b" and "sha256_hexdigest svc b \<noteq> []"
  shows "snd (record_version svc fp opn md s) =
           (if opn \<in> {''delete'', ''rename''}
               \<or> (\<forall>r \<in> set (rows_of fp s). content_hash r \<noteq> Some (sha256_hexdigest svc b))
            then s\<lparr>files :=
                     (if files s (get_storage_path svc (sha256_hexdigest svc b)) = None
                      then (files s)(get_storage_path svc (sha256_hexdigest svc b) \<mapsto> b)
                      else files s),
                   file_versions := file_versions s @ [new_row svc fp opn md s],
                   next_id := Suc (next_id s)\<rparr>
            else s)"
proof -
  have h: "compute_hash svc s fp = Some (sha256_hexdigest svc b)" "truthy (compute_hash svc s fp)"
    using assms by (simp_all add: compute_hash_def truthy_def)
  have nf: "new_files svc fp s =
              (if files s (get_storage_path svc (sha256_hexdigest svc b)) = None
               then (files s)(get_storage_path svc (sha256_hexdigest svc b) \<mapsto> b)
               else files s)"
    using h assms(1) by (simp add: new_files_def)
  have ex: "existing_version fp (compute_hash svc s fp) s = None \<longleftrightarrow>
              (\<forall>r \<in> set (rows_of fp s). content_hash r \<noteq> Some (sha256_hexdigest svc b))"
    by (simp add: existing_version_None_iff h(1))
  show ?thesis
  proof (cases "existing_version fp (compute_hash svc s fp) s \<noteq> None
                  \<and> opn \<notin> {''delete'', ''rename''}")
    case True
    then obtain i where "existing_version fp (compute_hash svc s fp) s = Some i" by auto
    then have "record_version svc fp opn md s = (Some i, s)"
      using True by (intro record_version_dedup) simp_all
    moreover have "\<not> (opn \<in> {''delete'', ''rename''}
               \<or> (\<forall>r \<in> set (rows_of fp s). content_hash r \<noteq> Some (sha256_hexdigest svc b)))"
      using True ex by auto
    ultimately show ?thesis by (simp only: if_False snd_conv)
  next
    case False
    have c: "opn \<in> {''delete'', ''rename''}
               \<or> (\<forall>r \<in> set (rows_of fp s). content_hash r \<noteq> Some (sha256_hexdigest svc b))"
      using False ex by auto
    show ?thesis
      by (simp only: record_version_insert[OF False] snd_conv if_P[OF c] nf)
  qed
qed

text \<open>A row that \<^verbatim>\<open>record_version\<close> inserts without a digest has no storage location.\<close>

lemma new_row_no_digest:
  "content_hash (new_row svc fp opn md s) = None \<Longrightarrow> storage_location (new_row svc fp opn md s) = None"
  by (simp add: new_row_def truthy_def)

lemma get_storage_path_shape:
  assumes "h \<noteq> []" and "CHR ''/'' \<notin> set h"
  shows "get_storage_path svc h = storage_path svc @ ''/'' @ take 2 h @ ''/'' @ h"
proof -
  obtain c cs where h: "h = c # cs" using assms(1) by (cases h) auto
  have c: "c \<noteq> CHR ''/''" using assms(2) h by auto
  have t: "take 2 h \<noteq> []" "hd (take 2 h) \<noteq> CHR ''/''" "last (take 2 h) \<noteq> CHR ''/''"
    using assms(2) h c by (cases cs; auto)+
  have l: "last (storage_path svc) \<noteq> CHR ''/''" "storage_path svc \<noteq> []"
    by (simp_all add: storage_path_def)
  have j1: "join (storage_path svc) (take 2 h) = storage_path svc @ ''/'' @ take 2 h"
    using t(1,2) l unfolding join_def by simp
  have l2: "last (storage_path svc @ ''/'' @ take 2 h) \<noteq> CHR ''/''"
    using t(1,3) by simp
  have j2: "join (storage_path svc @ ''/'' @ take 2 h) h
              = (storage_path svc @ ''/'' @ take 2 h) @ ''/'' @ h"
    using l2 h c unfolding join_def by simp
  show ?thesis
    by (simp only: get_storage_path_def Let_def j1 j2) simp
qed

subsection \<open>\<^verbatim>\<open>restore_version\<close>\<close>

lemma record_version_keeps:
  assumes "files s loc = Some b" and "r \<in> set (rows_of fp s)"
  shows "files (snd (record_version svc fp opn md s)) loc = Some b"
    and "r \<in> set (rows_of fp (snd (record_version svc fp opn md s)))"
    and "file_versions (snd (record_version svc fp opn md s)) = file_versions s
         \<or> (\<exists>row. file_versions (snd (record_version svc fp opn md s)) = file_versions s @ [row]
                  \<and> operation row = opn)"
proof -
  have nf: "new_files svc fp s loc = Some b"
    using assms(1) by (auto simp: new_files_def)
  have op: "operation (new_row svc fp opn md s) = opn" by (simp add: new_row_def)
  show "files (snd (record_version svc fp opn md s)) loc = Some b"
    using record_version_snd[of svc fp opn md s] assms(1) nf by auto
  show "r \<in> set (rows_of fp (snd (record_version svc fp opn md s)))"
    using record_version_snd[of svc fp opn md s] assms(2) by (auto simp: rows_of_def)
  show "file_versions (snd (record_version svc fp opn md s)) = file_versions s
         \<or> (\<exists>row. file_versions (snd (record_version svc fp opn md s)) = file_versions s @ [row]
                  \<and> operation row = opn)"
    using record_version_snd[of svc fp opn md s] op by auto
qed

text \<open>
  A restore to a row of the same path whose digest is the digest of its blob: after
  the copy the live file has the digest of that row, so the second
  \<^verbatim>\<open>record_version\<close> (operation \<^verbatim>\<open>restore\<close>) returns the existing version. The final
  state is the state after the \<^verbatim>\<open>pre_restore\<close> recording with the live file
  overwritten: no \<^verbatim>\<open>restore\<close> row is ever appended.
\<close>

lemma restore_row_records_no_restore:
  assumes "r \<in> set (rows_of fp s)"
    and "storage_location r = Some loc" and "loc \<noteq> []" and "files s loc = Some b"
    and "content_hash r = Some (sha256_hexdigest svc b)"
    and "dirname fp \<noteq> []" and "loc \<noteq> fp"
  shows "restore_row svc fp (Some r) s =
           (\<lparr>success = True, response_file_path = fp, restored_version = version_number r,
             message = RestoredTo (version_number r)\<rparr>,
            (snd (record_version svc fp ''pre_restore'' None s))
              \<lparr>files := (files (snd (record_version svc fp ''pre_restore'' None s)))(fp \<mapsto> b)\<rparr>)"
proof -
  let ?s1 = "snd (record_version svc fp ''pre_restore'' None s)"
  let ?s2 = "?s1\<lparr>files := (files ?s1)(fp \<mapsto> b)\<rparr>"
  have blob: "truthy (Some loc) \<and> files s loc \<noteq> None"
    using assms(3,4) by (simp add: truthy_def)
  have f1: "files ?s1 loc = Some b" using assms(4,1) by (rule record_version_keeps(1))
  have r1: "r \<in> set (rows_of fp ?s1)" using assms(4,1) by (rule record_version_keeps(2))
  have mk: "makedirs (dirname fp) = None" using assms(6) by (simp add: makedirs_def)
  have cp: "copy2 loc fp (files ?s1) = Inr ((files ?s1)(fp \<mapsto> b))"
    using f1 assms(7) by (simp add: copy2_def)
  have h2: "compute_hash svc ?s2 fp = Some (sha256_hexdigest svc b)"
    by (simp add: compute_hash_def)
  have "r \<in> set (rows_of fp ?s2)" using r1 by (simp add: rows_of_def)
  then have "existing_version fp (compute_hash svc ?s2 fp) ?s2 \<noteq> None"
    using assms(5) h2 by (auto simp: existing_version_None_iff)
  then obtain i where i: "existing_version fp (compute_hash svc ?s2 fp) ?s2 = Some i" by auto
  have "''restore'' \<notin> {''delete'', ''rename''}" by simp
  then have rec: "record_version svc fp ''restore''
                    (Some [(''restored_from_version'', version_number r)]) ?s2 = (Some i, ?s2)"
    by (rule record_version_dedup[OF i])
  show ?thesis
    by (simp only: restore_row_def option.case if_P[OF blob] Let_def assms(2) option.sel mk cp
          sum.case rec snd_conv)
qed

subsection \<open>\<^verbatim>\<open>cleanup_old_versions\<close>\<close>

lemma to_delete_Max:
  "to_delete c k rows =
     filter (\<lambda>r. timestamp r < c
               \<and> version_number r < Max (version_number ` {v2 \<in> set rows. file_path v2 = file_path r}) - k) rows"
  unfolding to_delete_def
proof (rule filter_cong[OF refl])
  fix r assume r: "r \<in> set rows"
  then have ne: "filter (\<lambda>v2. file_path v2 = file_path r) rows \<noteq> []"
    by (auto simp: filter_empty_conv)
  have "sql_max (map version_number (filter (\<lambda>v2. file_path v2 = file_path r) rows))
          = Some (Max (version_number ` {v2 \<in> set rows. file_path v2 = file_path r}))"
    using ne by (simp add: sql_max_Max)
  then show "(timestamp r < c \<and>
          (case sql_max (map version_number (filter (\<lambda>v2. file_path v2 = file_path r) rows)) of
             None \<Rightarrow> False | Some m \<Rightarrow> version_number r < m - k))
        = (timestamp r < c \<and> version_number r < Max (version_number ` {v2 \<in> set rows. file_path v2 = file_path r}) - k)"
    by simp
qed

lemma filter_not_in_ids:
  assumes "distinct (map version_id rows)"
  shows "filter (\<lambda>r. version_id r \<notin> set (map version_id (filter P rows))) rows = filter (\<lambda>r. \<not> P r) rows"
proof (rule filter_cong[OF refl])
  fix r assume r: "r \<in> set rows"
  have inj: "inj_on version_id (set rows)" using assms by (simp add: distinct_map)
  show "(version_id r \<notin> set (map version_id (filter P rows))) = (\<not> P r)"
  proof
    assume "version_id r \<notin> set (map version_id (filter P rows))"
    then show "\<not> P r" using r by auto
  next
    assume np: "\<not> P r"
    show "version_id r \<notin> set (map version_id (filter P rows))"
    proof
      assume "version_id r \<in> set (map version_id (filter P rows))"
      then obtain r' where r': "r' \<in> set rows" "P r'" "version_id r' = version_id r" by auto
      then have "r' = r" using inj r by (auto dest: inj_onD)
      then show False using np r'(2) by simp
    qed
  qed
qed

subsection \<open>Histories\<close>

lemma sql_max_upto: "sql_max (map int [1 ..< Suc n]) = (if n = 0 then None else Some (int n))"
proof (cases "n = 0")
  case True then show ?thesis by simp
next
  case False
  then have "Max (set (map int [1 ..< Suc n])) = int n"
    by (intro Max_eqI) auto
  then show ?thesis using False by (simp add: sql_max_Max)
qed

lemma new_row_version:
  assumes "map version_number (rows_of fp s) = map int [1 ..< Suc (length (rows_of fp s))]"
  shows "version_number (new_row svc fp opn md s) = int (length (rows_of fp s)) + 1"
  by (simp only: new_row_def file_version.simps assms sql_max_upto) (simp add: coalesce_def)

lemma gapless_record:
  assumes "gapless s"
  shows "gapless (snd (record_version svc fp opn md s))"
proof -
  consider "snd (record_version svc fp opn md s) = s"
    | "snd (record_version svc fp opn md s) =
        s\<lparr>files := new_files svc fp s,
          file_versions := file_versions s @ [new_row svc fp opn md s],
          next_id := Suc (next_id s)\<rparr>"
    using record_version_cases[of svc fp opn md s] by auto
  then show ?thesis
  proof cases
    case 1 then show ?thesis using assms by simp
  next
    case 2
    let ?r = "new_row svc fp opn md s"
    let ?s' = "s\<lparr>files := new_files svc fp s,
          file_versions := file_versions s @ [?r], next_id := Suc (next_id s)\<rparr>"
    have fp: "file_path ?r = fp" and ts: "timestamp ?r = now s" by (simp_all add: new_row_def)
    have v: "version_number ?r = int (length (rows_of fp s)) + 1"
      using assms by (intro new_row_version) (simp add: gapless_def)
    have rows: "rows_of q ?s' = (if q = fp then rows_of fp s @ [?r] else rows_of q s)" for q
      using fp by (auto simp: rows_of_def)
    have a: "map version_number (rows_of q ?s') = map int [1 ..< Suc (length (rows_of q ?s'))]" for q
    proof (cases "q = fp")
      case True
      have "map version_number (rows_of fp s) = map int [1 ..< Suc (length (rows_of fp s))]"
        using assms by (simp add: gapless_def)
      then show ?thesis using True v by (simp add: rows)
    next
      case False then show ?thesis using assms by (simp add: rows gapless_def)
    qed
    have b: "sorted (map timestamp (file_versions ?s'))"
      using assms ts by (auto simp: gapless_def sorted_append)
    have c: "\<forall>r \<in> set (file_versions ?s'). timestamp r \<le> now ?s'"
      using assms ts by (auto simp: gapless_def)
    show ?thesis unfolding 2 gapless_def using a b c by blast
  qed
qed

lemma gapless_step: "gapless s \<Longrightarrow> gapless (step svc s e)"
proof (cases e)
  case (Record fp opn md)
  assume "gapless s" then show ?thesis using Record by (simp add: gapless_record)
next
  case (Tick d)
  assume "gapless s" then show ?thesis using Tick by (fastforce simp: gapless_def rows_of_def)
qed (auto simp: gapless_def rows_of_def)

lemma gapless_run: "gapless s \<Longrightarrow> gapless (run svc evs s)"
  unfolding run_def by (induction evs arbitrary: s) (simp_all add: gapless_step)

lemma gapless_empty: "file_versions s = [] \<Longrightarrow> gapless s"
  by (simp add: gapless_def rows_of_def)

lemma gapless_order:
  assumes "gapless s" and "r1 \<in> set (rows_of fp s)" and "r2 \<in> set (rows_of fp s)"
    and "version_number r1 < version_number r2"
  shows "timestamp r1 \<le> timestamp r2"
proof -
  let ?rs = "rows_of fp s"
  have vs: "map version_number ?rs = map int [1 ..< Suc (length ?rs)]"
    using assms(1) by (simp add: gapless_def)
  have vn: "version_number (?rs ! i) = int i + 1" if "i < length ?rs" for i
  proof -
    have "version_number (?rs ! i) = map version_number ?rs ! i" using that by simp
    also have "\<dots> = map int [1 ..< Suc (length ?rs)] ! i" by (simp only: vs)
    also have "\<dots> = int i + 1" using that by (simp add: nth_append less_Suc_eq_le del: upt_Suc)
    finally show ?thesis .
  qed
  obtain i where i: "i < length ?rs" "r1 = ?rs ! i" using assms(2) by (metis in_set_conv_nth)
  obtain j where j: "j < length ?rs" "r2 = ?rs ! j" using assms(3) by (metis in_set_conv_nth)
  have "i < j" using assms(4) vn[OF i(1)] vn[OF j(1)] i(2) j(2) by simp
  have "sorted (map timestamp ?rs)"
    using assms(1) unfolding gapless_def rows_of_def by (simp add: sorted_filter)
  then have "map timestamp ?rs ! i \<le> map timestamp ?rs ! j"
    using \<open>i < j\<close> j(1) by (intro sorted_nth_mono) simp_all
  then show ?thesis using i j by simp
qed

subsection \<open>The concrete stores\<close>

lemma demo_state_catalog: "file_versions demo_state = [version_1, version_2]"
  by code_simp

lemma demo_state_files:
  "files demo_state ''/d/a.txt'' = Some ''Y'' \<and> files demo_state blob_X = Some ''X''
   \<and> files demo_state blob_Y = Some ''Y'' \<and> now demo_state = 30"
  by code_simp

lemma deleted_state_catalog: "file_versions deleted_state = [version_1, version_2, version_3]"
  by code_simp

lemma demo_service_blob_X: "get_storage_path demo_service (sha_table ''X'') = blob_X"
  by code_simp

section \<open>The claims\<close>

subsection \<open>C1: a restore appends a \<^verbatim>\<open>pre_restore\<close> row and a \<^verbatim>\<open>restore\<close> row\<close>

text \<open>
  Claim C1 says that a successful \<^verbatim>\<open>restore_version\<close> appends a \<^verbatim>\<open>pre_restore\<close> row
  and a \<^verbatim>\<open>restore\<close> row with the metadata \<^verbatim>\<open>restored_from_version\<close>, and leaves the
  bytes of the target version in the live file. The source calls \<^verbatim>\<open>record_version\<close>
  for both rows, but \<^verbatim>\<open>record_version\<close> returns the existing version whenever the
  path already has a row with the digest of the live file, for every operation but
  \<^verbatim>\<open>delete\<close> and \<^verbatim>\<open>rename\<close>. In the scenario of the specification (\<open>X\<close> is
  version 1, \<open>Y\<close> is version 2 and the live content) the restore to version 1
  succeeds, the live file holds \<open>X\<close>, and the table still has its two rows: neither
  row is appended. Lemma \<open>restore_row_records_no_restore\<close> shows that this is no
  accident of the scenario: the \<^verbatim>\<open>restore\<close> row is never appended when the target is
  a row of the same path whose digest is that of its blob.
\<close>

theorem restore_version_appends_no_row:
  "length (restore_version demo_service ''/d/a.txt'' (Some 1) None demo_state) = 1
   \<and> fst (hd (restore_version demo_service ''/d/a.txt'' (Some 1) None demo_state)) =
       \<lparr>success = True, response_file_path = ''/d/a.txt'', restored_version = 1,
        message = RestoredTo 1\<rparr>
   \<and> file_versions demo_state = [version_1, version_2]
   \<and> file_versions (snd (hd (restore_version demo_service ''/d/a.txt'' (Some 1) None demo_state)))
       = [version_1, version_2]
   \<and> files demo_state ''/d/a.txt'' = Some ''Y''
   \<and> files (snd (hd (restore_version demo_service ''/d/a.txt'' (Some 1) None demo_state)))
        ''/d/a.txt'' = Some ''X''"
  by code_simp

subsection \<open>C2: what \<^verbatim>\<open>record_version\<close> deduplicates against\<close>

text \<open>
  Claim C2, as amended: \<^verbatim>\<open>record_version\<close> deduplicates against every version of the
  path, not only the latest. When the operation is neither \<^verbatim>\<open>delete\<close> nor \<^verbatim>\<open>rename\<close>
  and some row of the path carries the digest of the live file, the call returns
  the id of a row with the greatest version number among the rows of the path with
  that digest, and changes neither store. Otherwise (the operation is \<^verbatim>\<open>delete\<close> or
  \<^verbatim>\<open>rename\<close>, or the file cannot be read, or no row of the path has its digest) it
  appends one row, whose version number is the greatest of the path plus one.
\<close>

theorem record_version_dedup_any_version:
  "(opn \<notin> {''delete'', ''rename''}
       \<and> (\<exists>r \<in> set (rows_of fp s). compute_hash svc s fp \<noteq> None \<and> content_hash r = compute_hash svc s fp)
     \<longrightarrow> (\<exists>r \<in> set (rows_of fp s).
            content_hash r = compute_hash svc s fp
          \<and> (\<forall>r' \<in> set (rows_of fp s).
                content_hash r' = compute_hash svc s fp \<longrightarrow> version_number r' \<le> version_number r)
          \<and> record_version svc fp opn md s = (Some (version_id r), s)))
   \<and> (opn \<in> {''delete'', ''rename''}
       \<or> (\<forall>r \<in> set (rows_of fp s). compute_hash svc s fp = None \<or> content_hash r \<noteq> compute_hash svc s fp)
     \<longrightarrow> record_version svc fp opn md s =
           (Some (next_id s),
            s\<lparr>files := new_files svc fp s,
              file_versions := file_versions s @ [new_row svc fp opn md s],
              next_id := Suc (next_id s)\<rparr>)
         \<and> version_number (new_row svc fp opn md s)
             = coalesce (sql_max (map version_number (rows_of fp s))) 0 + 1)"
proof (intro conjI impI)
  assume a: "opn \<notin> {''delete'', ''rename''}
       \<and> (\<exists>r \<in> set (rows_of fp s). compute_hash svc s fp \<noteq> None \<and> content_hash r = compute_hash svc s fp)"
  then have "existing_version fp (compute_hash svc s fp) s \<noteq> None"
    by (auto simp: existing_version_None_iff)
  then obtain i where i: "existing_version fp (compute_hash svc s fp) s = Some i" by auto
  from existing_version_Some[OF i] obtain d r where r:
    "compute_hash svc s fp = Some d" "r \<in> set (rows_of fp s)" "content_hash r = Some d"
    "version_id r = i"
    "\<forall>r' \<in> set (rows_of fp s). content_hash r' = Some d \<longrightarrow> version_number r' \<le> version_number r"
    by blast
  have "record_version svc fp opn md s = (Some (version_id r), s)"
    using record_version_dedup[OF i, of opn md] a r(4) by simp
  then show "\<exists>r \<in> set (rows_of fp s).
            content_hash r = compute_hash svc s fp
          \<and> (\<forall>r' \<in> set (rows_of fp s).
                content_hash r' = compute_hash svc s fp \<longrightarrow> version_number r' \<le> version_number r)
          \<and> record_version svc fp opn md s = (Some (version_id r), s)"
    using r by (intro bexI[of _ r]) simp_all
next
  assume a: "opn \<in> {''delete'', ''rename''}
       \<or> (\<forall>r \<in> set (rows_of fp s). compute_hash svc s fp = None \<or> content_hash r \<noteq> compute_hash svc s fp)"
  have "\<not> (existing_version fp (compute_hash svc s fp) s \<noteq> None \<and> opn \<notin> {''delete'', ''rename''})"
  proof (cases "opn \<in> {''delete'', ''rename''}")
    case True then show ?thesis by blast
  next
    case False
    then have "\<forall>r \<in> set (rows_of fp s). compute_hash svc s fp = None \<or> content_hash r \<noteq> compute_hash svc s fp"
      using a by blast
    then have "existing_version fp (compute_hash svc s fp) s = None"
      by (auto simp: existing_version_None_iff)
    then show ?thesis by simp
  qed
  then show "record_version svc fp opn md s =
           (Some (next_id s),
            s\<lparr>files := new_files svc fp s,
              file_versions := file_versions s @ [new_row svc fp opn md s],
              next_id := Suc (next_id s)\<rparr>)"
    by (rule record_version_insert)
next
  show "version_number (new_row svc fp opn md s)
             = coalesce (sql_max (map version_number (rows_of fp s))) 0 + 1"
    by (simp add: new_row_def)
qed

text \<open>
  Witness for C2: with \<open>X\<close> back in the file the call returns version 1 and appends
  nothing; with a content that no version has it appends version 3.
\<close>

theorem record_version_dedup_any_version_witness:
  "''modify'' \<notin> {''delete'', ''rename''}
   \<and> compute_hash demo_service reverted_state ''/d/a.txt'' = content_hash version_1
   \<and> version_1 \<in> set (rows_of ''/d/a.txt'' reverted_state)
   \<and> record_version demo_service ''/d/a.txt'' ''modify'' None reverted_state
       = (Some (version_id version_1), reverted_state)
   \<and> map version_number
        (file_versions (snd (record_version demo_service ''/d/a.txt'' ''modify'' None edited_state)))
       = [1, 2, 3]"
proof -
  have h: "''modify'' \<notin> {''delete'', ''rename''}"
          "compute_hash demo_service reverted_state ''/d/a.txt'' = content_hash version_1"
          "version_1 \<in> set (rows_of ''/d/a.txt'' reverted_state)"
          "compute_hash demo_service reverted_state ''/d/a.txt'' \<noteq> None"
    by code_simp+
  have a: "''modify'' \<notin> {''delete'', ''rename''}
       \<and> (\<exists>r \<in> set (rows_of ''/d/a.txt'' reverted_state).
             compute_hash demo_service reverted_state ''/d/a.txt'' \<noteq> None
           \<and> content_hash r = compute_hash demo_service reverted_state ''/d/a.txt'')"
    using h by (intro conjI bexI[of _ version_1]) simp_all
  note inst = record_version_dedup_any_version
            [where opn = "''modify''" and fp = "''/d/a.txt''" and s = reverted_state
               and svc = demo_service and md = None]
  from inst[THEN conjunct1, THEN mp, OF a]
  obtain r where r: "r \<in> set (rows_of ''/d/a.txt'' reverted_state)"
      "content_hash r = compute_hash demo_service reverted_state ''/d/a.txt''"
      "record_version demo_service ''/d/a.txt'' ''modify'' None reverted_state
         = (Some (version_id r), reverted_state)"
    by (elim bexE conjE)
  have "\<forall>r \<in> set (rows_of ''/d/a.txt'' reverted_state).
          content_hash r = compute_hash demo_service reverted_state ''/d/a.txt''
          \<longrightarrow> version_id r = version_id version_1"
    by code_simp
  then have 1: "record_version demo_service ''/d/a.txt'' ''modify'' None reverted_state
         = (Some (version_id version_1), reverted_state)"
    using r by simp
  have 2: "map version_number
        (file_versions (snd (record_version demo_service ''/d/a.txt'' ''modify'' None edited_state)))
       = [1, 2, 3]"
    by code_simp
  show ?thesis using h(1,2,3) 1 2 by simp
qed

text \<open>
  Counterexample to C2 as stated: the file holds \<open>X\<close>, whose digest differs from the
  digest of the latest version (version 2) and equals the digest of version 1. The
  call returns the id of version 1 and appends no row.
\<close>

theorem record_version_older_digest_counterexample:
  "file_versions reverted_state = [version_1, version_2]
   \<and> compute_hash demo_service reverted_state ''/d/a.txt'' \<noteq> content_hash version_2
   \<and> compute_hash demo_service reverted_state ''/d/a.txt'' = content_hash version_1
   \<and> fst (record_version demo_service ''/d/a.txt'' ''modify'' None reverted_state)
       = Some (version_id version_1)
   \<and> file_versions (snd (record_version demo_service ''/d/a.txt'' ''modify'' None reverted_state))
       = [version_1, version_2]"
  by code_simp

subsection \<open>C3: \<^verbatim>\<open>time_travel\<close> and deleted files\<close>

text \<open>
  Claim C3 says that \<^verbatim>\<open>time_travel\<close> leaves out a path whose latest row at the target
  time is a \<^verbatim>\<open>delete\<close>. The query that the source runs has no condition on the
  operation (the query with \<^verbatim>\<open>operation != 'delete'\<close> is assigned to a variable and
  never run). With version 3 of \<^verbatim>\<open>/d/a.txt\<close> a \<^verbatim>\<open>delete\<close> at time 30, the listing at
  time 40 holds the path, at version 3.
\<close>

theorem time_travel_lists_deleted_file:
  "file_versions deleted_state = [version_1, version_2, version_3]
   \<and> operation version_3 = ''delete''
   \<and> time_travel deleted_state ''/d/'' 40 =
       \<lparr>directory = ''/d/'', as_of = 40,
        tt_files = [\<lparr>tt_file_path = ''/d/a.txt'', tt_version = 3, tt_size = 0,
                     tt_timestamp = 30\<rparr>],
        file_count = 1\<rparr>"
  by code_simp

subsection \<open>C4: the rows that \<^verbatim>\<open>cleanup_old_versions\<close> deletes\<close>

text \<open>
  Claim C4, as amended: when the ids of the table are distinct, the sweep deletes
  exactly the rows that are older than the cutoff (the clock minus the days to
  keep) and whose version number is strictly less than \<open>V - k\<close>, where \<open>V\<close> is the
  greatest version number of the row's path and \<open>k\<close> the second argument. So every
  row with a version number of at least \<open>V - k\<close> stays, whatever its age: the \<open>k + 1\<close>
  most recent versions, and with them the \<open>k\<close> most recent.
\<close>

theorem cleanup_deletes_strictly_older_versions:
  assumes "distinct (map version_id (file_versions s))"
  shows "file_versions (snd (cleanup_old_versions days k s)) =
           filter (\<lambda>r. \<not> (timestamp r < now s - days * 86400000000
                          \<and> version_number r < Max (version_number ` set (rows_of (file_path r) s)) - k))
             (file_versions s)
       \<and> (\<forall>r \<in> set (file_versions s).
             Max (version_number ` set (rows_of (file_path r) s)) - k \<le> version_number r
             \<longrightarrow> r \<in> set (file_versions (snd (cleanup_old_versions days k s))))"
proof -
  have 1: "file_versions (snd (cleanup_old_versions days k s)) =
           filter (\<lambda>r. \<not> (timestamp r < now s - days * 86400000000
                          \<and> version_number r < Max (version_number ` set (rows_of (file_path r) s)) - k))
             (file_versions s)"
    using filter_not_in_ids[OF assms]
    by (simp add: cleanup_old_versions_def Let_def to_delete_Max rows_of_def)
  show ?thesis unfolding 1 by auto
qed

text \<open>
  Witness for C4: of five versions, all older than the cutoff, the sweep that keeps
  1 version deletes the versions below \<open>5 - 1\<close>.
\<close>

theorem cleanup_deletes_strictly_older_versions_witness:
  "distinct (map version_id (file_versions five_versions))
   \<and> map version_number (file_versions (snd (cleanup_old_versions 0 1 five_versions))) = [4, 5]"
proof -
  have h: "distinct (map version_id (file_versions five_versions))" by code_simp
  have "map version_number
          (filter (\<lambda>r. \<not> (timestamp r < now five_versions - 0 * 86400000000
                          \<and> version_number r
                              < Max (version_number ` set (rows_of (file_path r) five_versions)) - 1))
             (file_versions five_versions)) = [4, 5]"
    by code_simp
  then have "map version_number (file_versions (snd (cleanup_old_versions 0 1 five_versions)))
               = [4, 5]"
    using cleanup_deletes_strictly_older_versions[OF h, of 0 1] by simp
  then show ?thesis using h by simp
qed

text \<open>
  Counterexample to C4 as stated: with five versions recorded at the times 1 to 5,
  the cutoff at 100 and \<open>k = 3\<close>, version 2 is older than the cutoff and its number
  is at most \<open>5 - 3\<close>, yet it stays: only version 1 is deleted.
\<close>

theorem cleanup_keeps_version_at_bound_counterexample:
  "map version_number (file_versions five_versions) = [1, 2, 3, 4, 5]
   \<and> map timestamp (file_versions five_versions) = [1, 2, 3, 4, 5]
   \<and> fst (fst (cleanup_old_versions 0 3 five_versions)) = 100
   \<and> map version_number (file_versions (snd (cleanup_old_versions 0 3 five_versions)))
       = [2, 3, 4, 5]"
  by code_simp

subsection \<open>C5: version numbers count up without gaps\<close>

text \<open>
  Claim C5, as amended: in every table that a history of recordings, file changes
  and clock ticks builds from an empty table, the version numbers of each path are
  1, 2, 3, ... in the order of insertion, and a row with a greater version number
  has a later or equal time stamp. A further recording appends nothing when its
  operation is neither \<^verbatim>\<open>delete\<close> nor \<^verbatim>\<open>rename\<close> and some row of the path has the
  digest of the file (it returns that version instead); otherwise it appends one
  row of the path, numbered one more than the number of the path's rows.
\<close>

theorem version_numbers_gapless:
  assumes "file_versions s0 = []"
  shows "map version_number (rows_of fp (run svc evs s0))
           = map int [1 ..< Suc (length (rows_of fp (run svc evs s0)))]
       \<and> (\<forall>r1 \<in> set (rows_of fp (run svc evs s0)). \<forall>r2 \<in> set (rows_of fp (run svc evs s0)).
             version_number r1 < version_number r2 \<longrightarrow> timestamp r1 \<le> timestamp r2)
       \<and> (if opn \<notin> {''delete'', ''rename''}
              \<and> (\<exists>r \<in> set (rows_of fp (run svc evs s0)).
                    compute_hash svc (run svc evs s0) fp \<noteq> None
                  \<and> content_hash r = compute_hash svc (run svc evs s0) fp)
           then file_versions (step svc (run svc evs s0) (Record fp opn md))
                  = file_versions (run svc evs s0)
           else \<exists>r. file_versions (step svc (run svc evs s0) (Record fp opn md))
                       = file_versions (run svc evs s0) @ [r]
                    \<and> file_path r = fp
                    \<and> version_number r = int (length (rows_of fp (run svc evs s0))) + 1
                    \<and> timestamp r = now (run svc evs s0))"
proof -
  let ?s = "run svc evs s0"
  have g: "gapless ?s" using assms by (intro gapless_run gapless_empty)
  have 1: "map version_number (rows_of fp ?s) = map int [1 ..< Suc (length (rows_of fp ?s))]"
    using g by (simp add: gapless_def)
  have 2: "\<forall>r1 \<in> set (rows_of fp ?s). \<forall>r2 \<in> set (rows_of fp ?s).
             version_number r1 < version_number r2 \<longrightarrow> timestamp r1 \<le> timestamp r2"
    using gapless_order[OF g] by blast
  have cond: "existing_version fp (compute_hash svc ?s fp) ?s \<noteq> None \<longleftrightarrow>
                (\<exists>r \<in> set (rows_of fp ?s).
                    compute_hash svc ?s fp \<noteq> None \<and> content_hash r = compute_hash svc ?s fp)"
    by (auto simp: existing_version_None_iff)
  have 3: "if opn \<notin> {''delete'', ''rename''}
              \<and> (\<exists>r \<in> set (rows_of fp ?s).
                    compute_hash svc ?s fp \<noteq> None \<and> content_hash r = compute_hash svc ?s fp)
           then file_versions (step svc ?s (Record fp opn md)) = file_versions ?s
           else \<exists>r. file_versions (step svc ?s (Record fp opn md)) = file_versions ?s @ [r]
                    \<and> file_path r = fp
                    \<and> version_number r = int (length (rows_of fp ?s)) + 1
                    \<and> timestamp r = now ?s"
  proof (cases "existing_version fp (compute_hash svc ?s fp) ?s \<noteq> None
                  \<and> opn \<notin> {''delete'', ''rename''}")
    case True
    then obtain i where "existing_version fp (compute_hash svc ?s fp) ?s = Some i" by auto
    then have "record_version svc fp opn md ?s = (Some i, ?s)"
      using True by (intro record_version_dedup) simp_all
    then show ?thesis using True cond by simp
  next
    case False
    have r: "file_path (new_row svc fp opn md ?s) = fp"
            "timestamp (new_row svc fp opn md ?s) = now ?s"
      by (simp_all add: new_row_def)
    have "\<not> (opn \<notin> {''delete'', ''rename''}
              \<and> (\<exists>r \<in> set (rows_of fp ?s).
                    compute_hash svc ?s fp \<noteq> None \<and> content_hash r = compute_hash svc ?s fp))"
      using False cond by blast
    moreover have "\<exists>r. file_versions (step svc ?s (Record fp opn md)) = file_versions ?s @ [r]
                    \<and> file_path r = fp
                    \<and> version_number r = int (length (rows_of fp ?s)) + 1
                    \<and> timestamp r = now ?s"
      using record_version_insert[OF False, of md] r new_row_version[OF 1, of svc opn md]
      by simp
    ultimately show ?thesis by (simp only: if_False)
  qed
  show ?thesis using 1 2 3 by blast
qed

text \<open>
  Witness for C5: the history of the scenario, from the empty table, gives the
  versions 1 and 2 with the time stamps 10 and 20.
\<close>

theorem version_numbers_gapless_witness:
  "file_versions empty_state = []
   \<and> map version_number (rows_of ''/d/a.txt'' (run demo_service demo_events empty_state)) = [1, 2]
   \<and> map timestamp (rows_of ''/d/a.txt'' (run demo_service demo_events empty_state)) = [10, 20]"
proof -
  have h: "file_versions empty_state = []" by code_simp
  have n: "length (rows_of ''/d/a.txt'' (run demo_service demo_events empty_state)) = 2"
    by code_simp
  have t: "map timestamp (rows_of ''/d/a.txt'' (run demo_service demo_events empty_state)) = [10, 20]"
    by code_simp
  have "map version_number (rows_of ''/d/a.txt'' (run demo_service demo_events empty_state))
          = map int [1 ..< Suc 2]"
    using version_numbers_gapless[OF h, of "''/d/a.txt''" demo_service demo_events] n
    by simp
  also have "\<dots> = [1, 2]" by code_simp
  finally show ?thesis using h t by simp
qed

text \<open>
  Counterexample to C5 as stated: three successive recordings whose content changes
  each time (\<open>X\<close>, then \<open>Y\<close>, then \<open>X\<close> again) give the version numbers 1 and 2 only;
  the third recording is assigned no number.
\<close>

theorem version_numbers_changing_content_counterexample:
  "map version_number
     (rows_of ''/d/a.txt''
        (run demo_service
           (demo_events @ [Write ''/d/a.txt'' ''X'', Record ''/d/a.txt'' ''modify'' None])
           empty_state)) = [1, 2]"
  by code_simp

subsection \<open>C6: the row that a time stamp selects\<close>

text \<open>
  Claim C6, as amended: when \<^verbatim>\<open>restore_version\<close> is called with a time stamp (and no
  version, or version 0), the rows it may resolve to are exactly the rows of the
  path with a time stamp at or before the selector that no other such row of the
  path exceeds in time stamp. When several rows share that latest time stamp, the
  query \<^verbatim>\<open>ORDER BY timestamp DESC LIMIT 1\<close> may return any of them: the version
  number breaks no tie.
\<close>

theorem select_target_timestamp:
  assumes "tv = None \<or> tv = Some 0"
  shows "r \<in> set (select_target s fp tv (Some t)) \<longleftrightarrow>
           r \<in> set (rows_of fp s) \<and> timestamp r \<le> t
           \<and> (\<forall>r' \<in> set (rows_of fp s). timestamp r' \<le> t \<longrightarrow> timestamp r' \<le> timestamp r)"
  using assms by (auto simp: select_target_def ranked_at_0_iff rows_of_def)

text \<open>
  Witness for C6: of two versions recorded at time 5, version 1 is a row that the
  selector 5 resolves to.
\<close>

theorem select_target_timestamp_witness:
  "version_number (hd (file_versions tie_state)) = 1
   \<and> hd (file_versions tie_state) \<in> set (select_target tie_state ''/d/a.txt'' None (Some 5))"
proof -
  have v: "version_number (hd (file_versions tie_state)) = 1" by code_simp
  have rhs: "hd (file_versions tie_state) \<in> set (rows_of ''/d/a.txt'' tie_state)
             \<and> timestamp (hd (file_versions tie_state)) \<le> 5
             \<and> (\<forall>r' \<in> set (rows_of ''/d/a.txt'' tie_state).
                   timestamp r' \<le> 5 \<longrightarrow> timestamp r' \<le> timestamp (hd (file_versions tie_state)))"
    by code_simp
  have "hd (file_versions tie_state) \<in> set (select_target tie_state ''/d/a.txt'' None (Some 5))"
    using select_target_timestamp[of None "hd (file_versions tie_state)" tie_state "''/d/a.txt''" 5]
      rhs
    by blast
  then show ?thesis using v by simp
qed

text \<open>
  Counterexample to C6 as stated: the versions 1 and 2 both carry the time stamp 5.
  For the selector 5 the query may return either, so \<^verbatim>\<open>restore_version\<close> may restore
  version 1 although version 2 has the same time stamp and the higher number.
\<close>

theorem select_target_tie_counterexample:
  "map version_number (select_target tie_state ''/d/a.txt'' None (Some 5)) = [1, 2]
   \<and> map timestamp (select_target tie_state ''/d/a.txt'' None (Some 5)) = [5, 5]
   \<and> map (restored_version \<circ> fst)
        (restore_version demo_service ''/d/a.txt'' None (Some 5) tie_state) = [1, 2]"
  by code_simp

subsection \<open>C7: no row resolves\<close>

text \<open>
  Claim C7: when no row resolves to the selector (\<^verbatim>\<open>fetchrow\<close> returns \<^verbatim>\<open>None\<close>; lemma
  \<open>select_target_Nil_iff\<close> says when, for each selector), \<^verbatim>\<open>restore_version\<close> has one
  outcome: the failure "No version found to restore" with version 0, and the state
  it was called in. No row is inserted, no blob is written and the live file is as
  it was.
\<close>

theorem restore_version_no_row:
  assumes "select_target s fp tv tt = []"
  shows "restore_version svc fp tv tt s =
           [(\<lparr>success = False, response_file_path = fp, restored_version = 0,
              message = NoVersionFound\<rparr>, s)]"
  using assms by (simp add: restore_version_def restore_row_def)

text \<open>Witness for C7: the path has the versions 1 and 2, and version 7 is asked for.\<close>

theorem restore_version_no_row_witness:
  "select_target demo_state ''/d/a.txt'' (Some 7) None = []
   \<and> restore_version demo_service ''/d/a.txt'' (Some 7) None demo_state =
       [(\<lparr>success = False, response_file_path = ''/d/a.txt'', restored_version = 0,
          message = NoVersionFound\<rparr>, demo_state)]"
proof -
  have h: "select_target demo_state ''/d/a.txt'' (Some 7) None = []" by code_simp
  show ?thesis using h restore_version_no_row[OF h, of demo_service] by simp
qed

subsection \<open>C8: the resolved row has no content in the store\<close>

text \<open>
  Claim C8: when a row that the selector resolves to has no storage location (as a
  \<^verbatim>\<open>delete\<close> record of a removed file: a row inserted without a digest has
  none, lemma \<open>new_row_no_digest\<close>) or its blob is
  not in the store, the outcome for that row is the failure "Version content not
  found in storage" with the row's version number, in the state of the call: the
  live file is not touched and no \<^verbatim>\<open>pre_restore\<close> row is recorded.
\<close>

theorem restore_version_content_unavailable:
  assumes "r \<in> set (select_target s fp tv tt)"
    and "storage_location r = None \<or> storage_location r = Some [] \<or> files s (the (storage_location r)) = None"
  shows "restore_row svc fp (Some r) s =
           (\<lparr>success = False, response_file_path = fp, restored_version = version_number r,
             message = ContentNotFound\<rparr>, s)
         \<and> restore_row svc fp (Some r) s \<in> set (restore_version svc fp tv tt s)"
proof -
  have n: "\<not> (truthy (storage_location r) \<and> files s (the (storage_location r)) \<noteq> None)"
    using assms(2) by (auto simp: truthy_def)
  have "restore_row svc fp (Some r) s =
           (\<lparr>success = False, response_file_path = fp, restored_version = version_number r,
             message = ContentNotFound\<rparr>, s)"
    by (simp only: restore_row_def option.case if_not_P[OF n])
  moreover have "restore_row svc fp (Some r) s \<in> set (restore_version svc fp tv tt s)"
    using assms(1) by (auto simp: restore_version_outcomes)
  ultimately show ?thesis by simp
qed

text \<open>
  Witness for C8: version 3 is the record of a removal and has no storage location;
  in the other store the blob of version 1 is gone.
\<close>

theorem restore_version_content_unavailable_witness:
  "select_target deleted_state ''/d/a.txt'' (Some 3) None = [version_3]
   \<and> storage_location version_3 = None
   \<and> restore_version demo_service ''/d/a.txt'' (Some 3) None deleted_state =
       [(\<lparr>success = False, response_file_path = ''/d/a.txt'', restored_version = 3,
          message = ContentNotFound\<rparr>, deleted_state)]
   \<and> select_target pruned_state ''/d/a.txt'' (Some 1) None = [version_1]
   \<and> files pruned_state (the (storage_location version_1)) = None
   \<and> restore_version demo_service ''/d/a.txt'' (Some 1) None pruned_state =
       [(\<lparr>success = False, response_file_path = ''/d/a.txt'', restored_version = 1,
          message = ContentNotFound\<rparr>, pruned_state)]"
proof -
  have s3: "select_target deleted_state ''/d/a.txt'' (Some 3) None = [version_3]" by code_simp
  have n3: "storage_location version_3 = None" by code_simp
  have v3: "version_number version_3 = 3" by code_simp
  have s1: "select_target pruned_state ''/d/a.txt'' (Some 1) None = [version_1]" by code_simp
  have n1: "files pruned_state (the (storage_location version_1)) = None" by code_simp
  have v1: "version_number version_1 = 1" by code_simp
  have a: "restore_row demo_service ''/d/a.txt'' (Some version_3) deleted_state =
       (\<lparr>success = False, response_file_path = ''/d/a.txt'', restored_version = 3,
          message = ContentNotFound\<rparr>, deleted_state)"
    using restore_version_content_unavailable
            [of version_3 deleted_state "''/d/a.txt''" "Some 3" None demo_service] s3 n3 v3
    by simp
  have b: "restore_row demo_service ''/d/a.txt'' (Some version_1) pruned_state =
       (\<lparr>success = False, response_file_path = ''/d/a.txt'', restored_version = 1,
          message = ContentNotFound\<rparr>, pruned_state)"
    using restore_version_content_unavailable
            [of version_1 pruned_state "''/d/a.txt''" "Some 1" None demo_service] s1 n1 v1
    by simp
  show ?thesis using s3 n3 s1 n1 a b by (simp add: restore_version_def)
qed

subsection \<open>C9: one blob location for each content\<close>

text \<open>
  Claim C9: the storage location is a function of the digest alone: the storage
  root, the first two characters of the digest as a directory, and the digest
  (for a digest that is not empty and has no slash, as every hexadecimal digest).
  Two paths hold the same bytes \<open>b\<close> and are recorded one after the other. Each
  call inserts a row exactly when its operation is \<^verbatim>\<open>delete\<close> or \<^verbatim>\<open>rename\<close> or no
  row of its path has the digest of \<open>b\<close> (for different paths the first call does
  not change the rows of the second path). Every inserted row carries that digest
  and the one location of that digest. The file system after the two calls is
  the file system before them, with \<open>b\<close> stored at that location when the location
  was free and a row was inserted: so whenever a row is inserted and the location
  was free or held \<open>b\<close>, the location holds exactly the bytes \<open>b\<close>; no other path
  changes; and when the location already holds a blob nothing is written.
\<close>

theorem blob_location_shared:
  fixes svc :: service and s :: state and p1 p2 :: path and b :: bytes
    and op1 op2 :: string and md1 md2 :: "json option"
  defines "h \<equiv> sha256_hexdigest svc b"
  defines "loc \<equiv> get_storage_path svc h"
  defines "s1 \<equiv> snd (record_version svc p1 op1 md1 s)"
  defines "s2 \<equiv> snd (record_version svc p2 op2 md2 s1)"
  defines "ins1 \<equiv> op1 \<in> {''delete'', ''rename''}
                    \<or> (\<forall>r \<in> set (rows_of p1 s). content_hash r \<noteq> Some h)"
  defines "ins2 \<equiv> op2 \<in> {''delete'', ''rename''}
                    \<or> (\<forall>r \<in> set (rows_of p2 s1). content_hash r \<noteq> Some h)"
  assumes "files s p1 = Some b" and "files s p2 = Some b"
    and "sha256_hexdigest svc b \<noteq> []" and "CHR ''/'' \<notin> set (sha256_hexdigest svc b)"
  shows "loc = storage_path svc @ ''/'' @ take 2 h @ ''/'' @ h
       \<and> file_versions s1 = file_versions s @ (if ins1 then [new_row svc p1 op1 md1 s] else [])
       \<and> file_versions s2 = file_versions s1 @ (if ins2 then [new_row svc p2 op2 md2 s1] else [])
       \<and> storage_location (new_row svc p1 op1 md1 s) = Some loc
       \<and> storage_location (new_row svc p2 op2 md2 s1) = Some loc
       \<and> content_hash (new_row svc p1 op1 md1 s) = Some h
       \<and> content_hash (new_row svc p2 op2 md2 s1) = Some h
       \<and> (p1 \<noteq> p2 \<longrightarrow> rows_of p2 s1 = rows_of p2 s)
       \<and> files s1 = (if files s loc = None \<and> ins1 then (files s)(loc \<mapsto> b) else files s)
       \<and> files s2 = (if files s loc = None \<and> (ins1 \<or> ins2) then (files s)(loc \<mapsto> b) else files s)
       \<and> ((ins1 \<or> ins2) \<and> (files s loc = None \<or> files s loc = Some b) \<longrightarrow> files s2 loc = Some b)
       \<and> (\<forall>q. q \<noteq> loc \<longrightarrow> files s2 q = files s q)
       \<and> (files s loc \<noteq> None \<longrightarrow> files s2 = files s)"
proof -
  have e1: "s1 = (if ins1
            then s\<lparr>files := (if files s loc = None then (files s)(loc \<mapsto> b) else files s),
                   file_versions := file_versions s @ [new_row svc p1 op1 md1 s],
                   next_id := Suc (next_id s)\<rparr>
            else s)"
    unfolding s1_def ins1_def loc_def h_def using assms(7,9) by (rule record_version_exact)
  have f1: "files s1 = (if files s loc = None \<and> ins1 then (files s)(loc \<mapsto> b) else files s)"
    by (subst e1) simp
  have p2: "files s1 p2 = Some b"
    using f1 assms(8) by (cases "p2 = loc") auto
  have e2: "s2 = (if ins2
            then s1\<lparr>files := (if files s1 loc = None then (files s1)(loc \<mapsto> b) else files s1),
                   file_versions := file_versions s1 @ [new_row svc p2 op2 md2 s1],
                   next_id := Suc (next_id s1)\<rparr>
            else s1)"
    unfolding s2_def ins2_def loc_def h_def using p2 assms(9) by (rule record_version_exact)
  have f2: "files s2 = (if files s loc = None \<and> (ins1 \<or> ins2) then (files s)(loc \<mapsto> b) else files s)"
    by (subst e2) (auto simp: f1)
  have A: "loc = storage_path svc @ ''/'' @ take 2 h @ ''/'' @ h"
    unfolding loc_def h_def using assms(9,10) by (rule get_storage_path_shape)
  have B1: "file_versions s1 = file_versions s @ (if ins1 then [new_row svc p1 op1 md1 s] else [])"
    by (subst e1) simp
  have B2: "file_versions s2 = file_versions s1 @ (if ins2 then [new_row svc p2 op2 md2 s1] else [])"
    by (subst e2) simp
  have c1: "compute_hash svc s p1 = Some h" "compute_hash svc s1 p2 = Some h"
    using assms(7) p2 by (simp_all add: compute_hash_def h_def)
  have t: "truthy (Some h)" using assms(9) by (simp add: truthy_def h_def)
  have C: "storage_location (new_row svc p1 op1 md1 s) = Some loc"
          "storage_location (new_row svc p2 op2 md2 s1) = Some loc"
          "content_hash (new_row svc p1 op1 md1 s) = Some h"
          "content_hash (new_row svc p2 op2 md2 s1) = Some h"
    using c1 t assms(7) p2 by (simp_all add: new_row_def loc_def)
  have fp: "file_path (new_row svc p1 op1 md1 s) = p1" by (simp add: new_row_def)
  have D: "p1 \<noteq> p2 \<longrightarrow> rows_of p2 s1 = rows_of p2 s"
    using B1 fp by (auto simp: rows_of_def)
  have E: "(ins1 \<or> ins2) \<and> (files s loc = None \<or> files s loc = Some b) \<longrightarrow> files s2 loc = Some b"
    by (auto simp: f2)
  have F: "\<forall>q. q \<noteq> loc \<longrightarrow> files s2 q = files s q" by (auto simp: f2)
  have G: "files s loc \<noteq> None \<longrightarrow> files s2 = files s" by (auto simp: f2)
  show ?thesis using A B1 B2 C D f1 f2 E F G by blast
qed

text \<open>
  Witness for C9: two files that hold \<open>X\<close> are recorded one after the other into an
  empty store; both rows point to the one location, which then holds \<open>X\<close>.
\<close>

theorem blob_location_shared_witness:
  "files two_files ''/d/a.txt'' = Some ''X'' \<and> files two_files ''/d/b.txt'' = Some ''X''
   \<and> get_storage_path demo_service (sha256_hexdigest demo_service ''X'') = blob_X
   \<and> files two_files blob_X = None
   \<and> map storage_location
        (file_versions (snd (record_version demo_service ''/d/b.txt'' ''create'' None
           (snd (record_version demo_service ''/d/a.txt'' ''create'' None two_files)))))
       = [Some blob_X, Some blob_X]
   \<and> files (snd (record_version demo_service ''/d/b.txt'' ''create'' None
               (snd (record_version demo_service ''/d/a.txt'' ''create'' None two_files))))
        blob_X = Some ''X''"
proof -
  have h: "files two_files ''/d/a.txt'' = Some ''X''" "files two_files ''/d/b.txt'' = Some ''X''"
          "sha256_hexdigest demo_service ''X'' \<noteq> []"
          "CHR ''/'' \<notin> set (sha256_hexdigest demo_service ''X'')"
    by code_simp+
  have l: "get_storage_path demo_service (sha256_hexdigest demo_service ''X'') = blob_X"
    by code_simp
  have free: "files two_files blob_X = None" by code_simp
  have ins: "\<forall>r \<in> set (rows_of ''/d/a.txt'' two_files).
               content_hash r \<noteq> Some (sha256_hexdigest demo_service ''X'')"
    by code_simp
  have m: "map storage_location
        (file_versions (snd (record_version demo_service ''/d/b.txt'' ''create'' None
           (snd (record_version demo_service ''/d/a.txt'' ''create'' None two_files)))))
       = [Some blob_X, Some blob_X]"
    by code_simp
  note t = blob_location_shared[OF h, where ?op1.0 = "''create''" and ?md1.0 = None
             and ?op2.0 = "''create''" and ?md2.0 = None, unfolded l]
  have pre: "((''create'' \<in> {''delete'', ''rename''}
               \<or> (\<forall>r \<in> set (rows_of ''/d/a.txt'' two_files).
                     content_hash r \<noteq> Some (sha256_hexdigest demo_service ''X'')))
             \<or> ''create'' \<in> {''delete'', ''rename''}
               \<or> (\<forall>r \<in> set (rows_of ''/d/b.txt''
                               (snd (record_version demo_service ''/d/a.txt'' ''create'' None two_files))).
                     content_hash r \<noteq> Some (sha256_hexdigest demo_service ''X'')))
            \<and> (files two_files blob_X = None \<or> files two_files blob_X = Some ''X'')"
    using ins free by (intro conjI disjI1 disjI2)
  have "files (snd (record_version demo_service ''/d/b.txt'' ''create'' None
               (snd (record_version demo_service ''/d/a.txt'' ''create'' None two_files))))
        blob_X = Some ''X''"
    using t[THEN conjunct2, THEN conjunct2, THEN conjunct2, THEN conjunct2, THEN conjunct2,
            THEN conjunct2, THEN conjunct2, THEN conjunct2, THEN conjunct2, THEN conjunct2,
            THEN conjunct1, THEN mp, OF pre] .
  then show ?thesis using h(1,2) l free m by simp
qed

subsection \<open>C10: the version 0 is no selector\<close>



end
